theory Spec2Isabelle
  imports Complex_Main "HOL-Library.Sublist"
begin

section \<open>Python strings\<close>

text \<open>
  A Python \<open>str\<close> is modelled as the list of its code points, each a \<open>char\<close>:
  the model covers text whose code points are below 256, and \<open>length\<close> counts code
  points as Python's \<open>len\<close> does. The character classes below are the ones of
  \<open>str.isspace\<close>, \<open>str.splitlines\<close>, \<open>str.lower\<close> and of the \<open>re\<close> module's
  \<open>\s\<close>, \<open>\d\<close>, \<open>\w\<close> on that range.
\<close>

definition code_point :: "char \<Rightarrow> nat" where
  "code_point c = of_char c"

definition is_space :: "char \<Rightarrow> bool" where
  "is_space c = (let n = code_point c in
     (9 \<le> n \<and> n \<le> 13) \<or> (28 \<le> n \<and> n \<le> 32) \<or> n = 133 \<or> n = 160)"

definition is_digit :: "char \<Rightarrow> bool" where
  "is_digit c = (let n = code_point c in 48 \<le> n \<and> n \<le> 57)"

definition is_word :: "char \<Rightarrow> bool" where
  "is_word c = (let n = code_point c in
     (48 \<le> n \<and> n \<le> 57) \<or> (65 \<le> n \<and> n \<le> 90) \<or> n = 95 \<or> (97 \<le> n \<and> n \<le> 122) \<or>
     n = 170 \<or> n = 178 \<or> n = 179 \<or> n = 181 \<or> n = 185 \<or> n = 186 \<or>
     (188 \<le> n \<and> n \<le> 190) \<or> (192 \<le> n \<and> n \<le> 214) \<or> (216 \<le> n \<and> n \<le> 246) \<or>
     248 \<le> n)"

definition is_linebreak :: "char \<Rightarrow> bool" where
  "is_linebreak c = (let n = code_point c in
     (10 \<le> n \<and> n \<le> 13) \<or> (28 \<le> n \<and> n \<le> 30) \<or> n = 133)"

definition lower_char :: "char \<Rightarrow> char" where
  "lower_char c = (let n = code_point c in
     if (65 \<le> n \<and> n \<le> 90) \<or> (192 \<le> n \<and> n \<le> 214) \<or> (216 \<le> n \<and> n \<le> 222)
     then char_of (n + 32) else c)"

definition lower :: "string \<Rightarrow> string" where
  "lower s = map lower_char s"

definition lstrip :: "string \<Rightarrow> string" where
  "lstrip s = dropWhile is_space s"

definition rstrip :: "string \<Rightarrow> string" where
  "rstrip s = rev (dropWhile is_space (rev s))"

definition strip :: "string \<Rightarrow> string" where
  "strip s = rstrip (lstrip s)"

definition startswith :: "string \<Rightarrow> string \<Rightarrow> bool" where
  "startswith s p = prefix p s"

definition endswith :: "string \<Rightarrow> string \<Rightarrow> bool" where
  "endswith s p = suffix p s"

text \<open>\<open>sep.join(xs)\<close>.\<close>

fun join :: "string \<Rightarrow> string list \<Rightarrow> string" where
  "join sep [] = []"
| "join sep [x] = x"
| "join sep (x # y # ys) = x @ sep @ join sep (y # ys)"

text \<open>
  \<open>str.splitlines()\<close>: the text is cut at every line boundary, \<open>\r\n\<close> counting as one,
  and a boundary at the very end opens no further line.
\<close>

fun splitlines_aux :: "string \<Rightarrow> string \<Rightarrow> string list" where
  "splitlines_aux cur [] = (if cur = [] then [] else [cur])"
| "splitlines_aux cur (c # cs) =
     (if is_linebreak c
      then cur # splitlines_aux []
             (if c = CHR 0x0D \<and> cs \<noteq> [] \<and> hd cs = CHR 0x0A then tl cs else cs)
      else splitlines_aux (cur @ [c]) cs)"

definition splitlines :: "string \<Rightarrow> string list" where
  "splitlines s = splitlines_aux [] s"

text \<open>\<open>int(s)\<close> on a string of ASCII digits, most significant digit first.\<close>

definition digit_val :: "char \<Rightarrow> int" where
  "digit_val c = int (code_point c) - 48"

definition int_of_digits :: "string \<Rightarrow> int" where
  "int_of_digits s = foldl (\<lambda>n c. 10 * n + digit_val c) 0 s"

text \<open>
  \<open>int(float(s))\<close> on a string of digits. \<open>float\<close> gives the double nearest to the number
  (ties to the even mantissa): below \<open>2^53\<close> that is the number itself, above it the number
  is rounded to 53 significant bits, and a number that rounds to \<open>2^1024\<close> or more becomes
  \<open>inf\<close>, on which \<open>int\<close> raises \<open>OverflowError\<close> (the value \<open>None\<close> here).
\<close>

function bit_length :: "int \<Rightarrow> nat" where
  "bit_length n = (if n \<le> 0 then 0 else Suc (bit_length (n div 2)))"
  by pat_completeness auto
termination
  by (relation "measure nat") auto

declare bit_length.simps [simp del]

definition round_to_double :: "int \<Rightarrow> int option" where
  "round_to_double n =
     (if n < 2 ^ 53 then Some n
      else let e = bit_length n - 53;
               q = n div 2 ^ e;
               r = n mod 2 ^ e;
               h = 2 ^ (e - 1);
               q' = (if h < r \<or> (r = h \<and> odd q) then q + 1 else q);
               v = q' * 2 ^ e
           in if 2 ^ 1024 \<le> v then None else Some v)"

section \<open>Decoded JSON values\<close>

text \<open>
  What \<open>json.loads\<close> returns: \<open>None\<close>, a bool, a number, a string, a list or a dict
  (an association list whose first entry for a key is the dict's entry).
\<close>

datatype json =
    JNull
  | JBool bool
  | JNum rat
  | JStr string
  | JArr "json list"
  | JObj "(string \<times> json) list"

text \<open>The exceptions the modelled code can raise.\<close>

datatype exn =
    AttributeError
  | TypeError
  | KeyError
  | OverflowError
  | NetworkError
  | JsonDecodeError
  | MissingModel
  | HttpError int
  | Http429 int

text \<open>Truthiness of a decoded value.\<close>

fun truthy :: "json \<Rightarrow> bool" where
  "truthy JNull = False"
| "truthy (JBool b) = b"
| "truthy (JNum n) = (n \<noteq> 0)"
| "truthy (JStr s) = (s \<noteq> [])"
| "truthy (JArr xs) = (xs \<noteq> [])"
| "truthy (JObj kvs) = (kvs \<noteq> [])"

text \<open>\<open>d.get(k, default)\<close>: only a dict has the method.\<close>

fun py_get :: "json \<Rightarrow> string \<Rightarrow> json \<Rightarrow> exn + json" where
  "py_get (JObj kvs) k dflt = Inr (case map_of kvs k of None \<Rightarrow> dflt | Some v \<Rightarrow> v)"
| "py_get _ k dflt = Inl AttributeError"

text \<open>\<open>k in x\<close> for a string \<open>k\<close>: substring of a string, element of a list, key of a dict.\<close>

fun py_in :: "string \<Rightarrow> json \<Rightarrow> exn + bool" where
  "py_in k (JStr s) = Inr (sublist k s)"
| "py_in k (JArr xs) = Inr (JStr k \<in> set xs)"
| "py_in k (JObj kvs) = Inr (k \<in> set (map fst kvs))"
| "py_in k _ = Inl TypeError"

text \<open>\<open>for d in x\<close>: the elements of a list, the keys of a dict, the characters of a string.\<close>

fun py_iter :: "json \<Rightarrow> exn + json list" where
  "py_iter (JArr xs) = Inr xs"
| "py_iter (JObj kvs) = Inr (map (\<lambda>kv. JStr (fst kv)) kvs)"
| "py_iter (JStr s) = Inr (map (\<lambda>c. JStr [c]) s)"
| "py_iter _ = Inl TypeError"

section \<open>parse_retry_delay_seconds\<close>

text \<open>
  \<open>re.match(r"^(\d+)(?:\.\d+)?s$", s)\<close>, returning group 1. The greedy \<open>\d+\<close> takes
  every leading digit (with fewer, the next character is a digit and nothing after
  \<open>\d+\<close> accepts one); \<open>$\<close> is the end of the string or the position before a final
  newline.
\<close>

definition at_dollar :: "string \<Rightarrow> bool" where
  "at_dollar r = (r = [] \<or> r = [CHR 0x0A])"

definition match_seconds :: "string \<Rightarrow> string option" where
  "match_seconds s =
     (let ds = takeWhile is_digit s; r = dropWhile is_digit s in
      if ds = [] then None
      else if r \<noteq> [] \<and> hd r = CHR ''s'' \<and> at_dollar (tl r) then Some ds
      else if r \<noteq> [] \<and> hd r = CHR ''.'' then
        (let fs = takeWhile is_digit (tl r); r' = dropWhile is_digit (tl r) in
         if fs \<noteq> [] \<and> r' \<noteq> [] \<and> hd r' = CHR ''s'' \<and> at_dollar (tl r') then Some ds else None)
      else None)"

text \<open>
  \<open>re.match(r"^PT(?:(\d+)H)?(?:(\d+)M)?(?:(\d+)S)?$", s)\<close>, returning the three groups.
  Each optional component is taken when the digits at that place are followed by its
  letter; when they are not, no later component and no \<open>$\<close> accepts the digits either.
\<close>

definition iso_component :: "char \<Rightarrow> string \<Rightarrow> string option \<times> string" where
  "iso_component letter s =
     (let ds = takeWhile is_digit s; r = dropWhile is_digit s in
      if ds \<noteq> [] \<and> r \<noteq> [] \<and> hd r = letter then (Some ds, tl r) else (None, s))"

definition match_iso :: "string \<Rightarrow> (string option \<times> string option \<times> string option) option" where
  "match_iso s =
     (if startswith s ''PT'' then
        (let (h, r1) = iso_component (CHR ''H'') (drop 2 s);
             (m, r2) = iso_component (CHR ''M'') r1;
             (sec, r3) = iso_component (CHR ''S'') r2
         in if at_dollar r3 then Some (h, m, sec) else None)
      else None)"

text \<open>\<open>int(g or 0)\<close> for a group \<open>g\<close> that matched digits or did not take part.\<close>

definition group_or_0 :: "string option \<Rightarrow> int" where
  "group_or_0 g = (case g of None \<Rightarrow> 0 | Some ds \<Rightarrow> int_of_digits ds)"

text \<open>
  The body of the \<open>if rd:\<close> branch for one truthy \<open>retryDelay\<close> value: \<open>Inr (Some n)\<close>
  is \<open>return n\<close>, \<open>Inr None\<close> falls through to the next detail. For a value that is not
  a string, \<open>str(rd)\<close> is the text of a number, of \<open>True\<close>, or of a list or dict
  display: it neither ends in \<open>s\<close> after digits nor starts with \<open>PT\<close>, so neither pattern
  matches.
\<close>

definition delay_of_text :: "string \<Rightarrow> exn + int option" where
  "delay_of_text t =
     (let s = strip t in
      case match_seconds s of
        Some ds \<Rightarrow>
          (case round_to_double (int_of_digits ds) of
             None \<Rightarrow> Inl OverflowError
           | Some v \<Rightarrow> Inr (Some v))
      | None \<Rightarrow>
          (case match_iso s of
             Some (h, m, sec) \<Rightarrow>
               Inr (Some (group_or_0 h * 3600 + group_or_0 m * 60 + group_or_0 sec))
           | None \<Rightarrow> Inr None))"

fun delay_of_value :: "json \<Rightarrow> exn + int option" where
  "delay_of_value (JStr t) = delay_of_text t"
| "delay_of_value _ = Inr None"

text \<open>The loop \<open>for d in details\<close>.\<close>

fun scan_details :: "json list \<Rightarrow> exn + int option" where
  "scan_details [] = Inr None"
| "scan_details (d # ds) =
     (case py_get d ''@type'' (JStr []) of
        Inl e \<Rightarrow> Inl e
      | Inr ty \<Rightarrow>
          (case py_in ''RetryInfo'' ty of
             Inl e \<Rightarrow> Inl e
           | Inr False \<Rightarrow> scan_details ds
           | Inr True \<Rightarrow>
               (case py_get d ''retryDelay'' JNull of
                  Inl e \<Rightarrow> Inl e
                | Inr rd \<Rightarrow>
                    if truthy rd then
                      (case delay_of_value rd of
                         Inl e \<Rightarrow> Inl e
                       | Inr (Some n) \<Rightarrow> Inr (Some n)
                       | Inr None \<Rightarrow> scan_details ds)
                    else scan_details ds)))"

text \<open>The body of the \<open>try\<close>.\<close>

definition parse_retry_delay_try :: "json \<Rightarrow> exn + int option" where
  "parse_retry_delay_try error_json =
     (case py_get error_json ''error'' (JObj []) of
        Inl e \<Rightarrow> Inl e
      | Inr err \<Rightarrow>
          (case py_get err ''details'' (JArr []) of
             Inl e \<Rightarrow> Inl e
           | Inr details \<Rightarrow>
               (case py_iter details of
                  Inl e \<Rightarrow> Inl e
                | Inr ds \<Rightarrow> scan_details ds)))"

text \<open>\<open>except Exception: pass\<close>, then \<open>return 10\<close>.\<close>

definition parse_retry_delay_seconds :: "json \<Rightarrow> int" where
  "parse_retry_delay_seconds error_json =
     (case parse_retry_delay_try error_json of
        Inl e \<Rightarrow> 10
      | Inr None \<Rightarrow> 10
      | Inr (Some n) \<Rightarrow> n)"

definition retry_info_payload :: "string \<Rightarrow> string \<Rightarrow> json" where
  \<comment> \<open>A 429 error body of the expected shape: one detail of type \<open>ty\<close> with delay \<open>rd\<close>.\<close>
  "retry_info_payload ty rd =
     JObj [(''error'', JObj [(''details'',
       JArr [JObj [(''@type'', JStr ty), (''retryDelay'', JStr rd)]])])]"

section \<open>minimalize_response\<close>

text \<open>
  \<open>_CODE_FENCE_RE.findall(text)\<close> for the pattern \<open>```(?:\w+)?\n(.*?)```\<close> with
  \<open>re.S\<close>. At a position the opening matches when three backquotes, then the whole run
  of word characters (a shorter run leaves a word character where the newline must be),
  then a newline stand there; the lazy group then runs to the first closing fence. The
  search goes on behind a match, and one character further where there is none.
\<close>

definition fence :: string where
  "fence = [CHR 0x60, CHR 0x60, CHR 0x60]"

definition fence_open :: "string \<Rightarrow> string option" where
  "fence_open s =
     (if prefix fence s then
        (let r = dropWhile is_word (drop 3 s) in
         if r \<noteq> [] \<and> hd r = CHR 0x0A then Some (tl r) else None)
      else None)"

fun find_close :: "string \<Rightarrow> (string \<times> string) option" where
  "find_close [] = None"
| "find_close (c # cs) =
     (if prefix fence (c # cs) then Some ([], drop 3 (c # cs))
      else (case find_close cs of None \<Rightarrow> None | Some (b, r) \<Rightarrow> Some (c # b, r)))"

lemma find_close_length: "find_close s = Some (b, r) \<Longrightarrow> length r < length s"
  by (induction s arbitrary: b r) (auto split: if_splits option.splits)

lemma fence_open_length: "fence_open s = Some body \<Longrightarrow> length body < length s"
proof -
  assume a: "fence_open s = Some body"
  then have p: "prefix fence s" and b: "body = tl (dropWhile is_word (drop 3 s))"
    and ne: "dropWhile is_word (drop 3 s) \<noteq> []"
    by (auto simp: fence_open_def Let_def split: if_splits)
  have "length (dropWhile is_word (drop 3 s)) \<le> length (drop 3 s)"
    by (rule length_dropWhile_le)
  with b ne p show ?thesis
    by (cases "dropWhile is_word (drop 3 s)") (auto simp: fence_def prefix_def)
qed

function findall_fences :: "string \<Rightarrow> string list" where
  "findall_fences [] = []"
| "findall_fences (c # cs) =
     (case fence_open (c # cs) of
        None \<Rightarrow> findall_fences cs
      | Some body \<Rightarrow>
          (case find_close body of
             None \<Rightarrow> findall_fences cs
           | Some (b, rest) \<Rightarrow> b # findall_fences rest))"
  by pat_completeness auto
termination
proof (relation "measure length")
  fix c cs body x2 b rest
  assume "fence_open (c # cs) = Some body" "find_close body = Some x2" "(b, rest) = x2"
  then have "length rest < length body" "length body < length (c # cs)"
    using find_close_length fence_open_length by metis+
  then show "(rest, c # cs) \<in> measure length" by simp
qed auto

text \<open>
  \<open>blocks.sort(key=lambda b: len(b), reverse=True)\<close>: a stable sort with every
  comparison reversed, so longer blocks first and equally long ones in their order of
  occurrence.
\<close>

definition sort_by_len_desc :: "string list \<Rightarrow> string list" where
  "sort_by_len_desc blocks = sort_key (\<lambda>b. - int (length b)) blocks"

text \<open>
  \<open>INLINE_CODE_RE.match(s)\<close>, the pattern compiled with \<open>re.M\<close>: after leading white
  space, a comment mark, or a run of \<open>[\w\.\-\_]\<close> followed by optional white space and
  \<open>=\<close>, or one of the keywords at a word boundary. The tails \<open>.*$\<close> always match.
\<close>

definition is_namechar :: "char \<Rightarrow> bool" where
  "is_namechar c = (is_word c \<or> c = CHR ''.'' \<or> c = CHR ''-'' \<or> c = CHR ''_'')"

definition code_keywords :: "string list" where
  "code_keywords = [''def'', ''class'', ''for'', ''while'', ''if'', ''return'', ''print'']"

definition keyword_at :: "string \<Rightarrow> string \<Rightarrow> bool" where
  "keyword_at k t = (prefix k t \<and> (case drop (length k) t of [] \<Rightarrow> True | c # _ \<Rightarrow> \<not> is_word c))"

definition INLINE_CODE_RE_match :: "string \<Rightarrow> bool" where
  "INLINE_CODE_RE_match s =
     (let t = dropWhile is_space s in
      prefix ''#'' t \<or> prefix ''//'' t \<or>
      (let r = dropWhile is_space (dropWhile is_namechar t) in
       takeWhile is_namechar t \<noteq> [] \<and> r \<noteq> [] \<and> hd r = CHR ''='') \<or>
      list_ex (\<lambda>k. keyword_at k t) code_keywords)"

text \<open>The loop over the lines, with its accumulators \<open>code_lines\<close> and \<open>curr\<close> (\<open>cur\<close> here).\<close>

fun group_lines :: "string list \<Rightarrow> string list \<Rightarrow> string list \<Rightarrow> string list" where
  "group_lines [] code_lines cur = (if cur \<noteq> [] then code_lines @ cur else code_lines)"
| "group_lines (line # lines) code_lines cur =
     (if INLINE_CODE_RE_match (strip line) then group_lines lines code_lines (cur @ [line])
      else if cur \<noteq> [] then group_lines lines (code_lines @ cur @ [[]]) []
      else group_lines lines code_lines cur)"

definition minimalize_text :: "string \<Rightarrow> string" where
  "minimalize_text text =
     (let blocks = findall_fences text in
      if blocks \<noteq> [] then
        (let code = rstrip (hd (sort_by_len_desc blocks));
             code' = (if \<not> endswith code [CHR 0x0A] then code @ [CHR 0x0A] else code)
         in ''// code (extracted)'' @ [CHR 0x0A] @ code')
      else
        (let code_lines = group_lines (splitlines text) [] [] in
         if 2 \<le> length (filter (\<lambda>l. strip l \<noteq> []) code_lines) then
           ''// code (heuristic)'' @ [CHR 0x0A] @ strip (join [CHR 0x0A] code_lines) @ [CHR 0x0A]
         else
           ''// response (minimal)'' @ [CHR 0x0A] @ take 1200 (join '' '' (splitlines (strip text)))))"

text \<open>The argument may be \<open>None\<close>; \<open>if not text: return ""\<close>.\<close>

definition minimalize_response :: "string option \<Rightarrow> string" where
  "minimalize_response text =
     (case text of
        None \<Rightarrow> []
      | Some t \<Rightarrow> if t = [] then [] else minimalize_text t)"

section \<open>The extractor as the specification words it\<close>

text \<open>
  The longest block by character count, the first one among equally long blocks.
\<close>

fun first_longest :: "string list \<Rightarrow> string" where
  "first_longest [] = []"
| "first_longest [b] = b"
| "first_longest (b # c # bs) =
     (let m = first_longest (c # bs) in if length b < length m then m else b)"

text \<open>A line is code-like when the pattern matches the stripped line.\<close>

definition code_like :: "string \<Rightarrow> bool" where
  "code_like l = INLINE_CODE_RE_match (strip l)"

text \<open>
  The three steps, first match wins; empty or absent input gives the empty string.
\<close>

definition extract_spec :: "string option \<Rightarrow> string" where
  "extract_spec text =
     (case text of
        None \<Rightarrow> []
      | Some t \<Rightarrow>
          if t = [] then []
          else if findall_fences t \<noteq> [] then
            ''// code (extracted)'' @ [CHR 0x0A] @ rstrip (first_longest (findall_fences t)) @ [CHR 0x0A]
          else if 2 \<le> length (filter code_like (splitlines t)) then
            ''// code (heuristic)'' @ [CHR 0x0A] @
              strip (join [CHR 0x0A] (group_lines (splitlines t) [] [])) @ [CHR 0x0A]
          else
            ''// response (minimal)'' @ [CHR 0x0A] @ take 1200 (join '' '' (splitlines (strip t))))"

text \<open>The marker of the minimal form, and the text that follows it.\<close>

definition minimal_marker :: string where
  "minimal_marker = ''// response (minimal)''"

text \<open>A text without line boundaries.\<close>

definition no_linebreak :: "string \<Rightarrow> bool" where
  "no_linebreak s = list_all (\<lambda>c. \<not> is_linebreak c) s"

definition minimal_payload :: "string \<Rightarrow> string" where
  "minimal_payload t = take 1200 (join '' '' (splitlines (strip t)))"

text \<open>
  The input has no fenced block and fewer than two code-like lines: the third step
  answers.
\<close>

definition takes_minimal_branch :: "string \<Rightarrow> bool" where
  "takes_minimal_branch t =
     (t \<noteq> [] \<and> findall_fences t = [] \<and> length (filter code_like (splitlines t)) < 2)"

section \<open>Properties of the extractor\<close>

lemma hd_insort_key:
  "hd (insort_key f x xs) = (if xs = [] then x else if f x \<le> f (hd xs) then x else hd xs)"
  by (cases xs) auto

lemma sort_key_Nil_iff: "sort_key f xs = [] \<longleftrightarrow> xs = []"
  by (metis length_sort list.size(3) length_0_conv)

lemma hd_sort_by_len_desc: "blocks \<noteq> [] \<Longrightarrow> hd (sort_by_len_desc blocks) = first_longest blocks"
proof (induction blocks rule: first_longest.induct)
  case 1 then show ?case by simp
next
  case (2 b) then show ?case by (simp add: sort_by_len_desc_def)
next
  case (3 b c bs)
  then have ih: "hd (sort_by_len_desc (c # bs)) = first_longest (c # bs)" by simp
  have ne: "sort_key (\<lambda>b. - int (length b)) (c # bs) \<noteq> []"
    using sort_key_Nil_iff[of "\<lambda>b. - int (length b)" "c # bs"] by simp
  have "hd (sort_by_len_desc (b # c # bs)) =
        hd (insort_key (\<lambda>b. - int (length b)) b (sort_key (\<lambda>b. - int (length b)) (c # bs)))"
    by (simp add: sort_by_len_desc_def)
  also have "\<dots> = (if length b < length (first_longest (c # bs)) then first_longest (c # bs) else b)"
    using ne ih unfolding hd_insort_key sort_by_len_desc_def by auto
  finally show ?case by (simp add: Let_def)
qed

lemma rstrip_no_newline_end: "\<not> endswith (rstrip s) [CHR 0x0A]"
proof
  assume "endswith (rstrip s) [CHR 0x0A]"
  then obtain p where p: "rstrip s = p @ [CHR 0x0A]"
    by (auto simp: endswith_def suffix_def)
  then have "dropWhile is_space (rev s) = CHR 0x0A # rev p"
    by (metis rstrip_def rev_rev_ident rev_append rev.simps(2) rev.simps(1) append_Nil)
  moreover have "is_space (CHR 0x0A)" by (simp add: is_space_def code_point_def)
  ultimately show False
    by (metis hd_dropWhile list.sel(1) list.distinct(1))
qed

lemma INLINE_Nil: "\<not> INLINE_CODE_RE_match []"
  by (simp add: INLINE_CODE_RE_match_def keyword_at_def code_keywords_def)

lemma group_lines_count:
  "length (filter (\<lambda>l. strip l \<noteq> []) (group_lines ls code cur)) =
   length (filter (\<lambda>l. strip l \<noteq> []) code) + length (filter (\<lambda>l. strip l \<noteq> []) cur) +
   length (filter code_like ls)"
proof (induction ls code cur rule: group_lines.induct)
  case (1 code cur) then show ?case by simp
next
  case (2 line lines code cur)
  have b: "strip [] = []" by (simp add: strip_def rstrip_def lstrip_def)
  show ?case
  proof (cases "INLINE_CODE_RE_match (strip line)")
    case True
    then have "strip line \<noteq> []" using INLINE_Nil by auto
    with True 2 show ?thesis by (simp add: code_like_def)
  next
    case False
    with 2 b show ?thesis by (simp add: code_like_def)
  qed
qed

lemma rstrip_trimmed: "rstrip s = [] \<or> \<not> is_space (last (rstrip s))"
proof (cases "dropWhile is_space (rev s)")
  case Nil
  then show ?thesis by (simp add: rstrip_def)
next
  case (Cons c cs)
  then have "\<not> is_space c"
    by (metis hd_dropWhile list.sel(1) list.distinct(1))
  with Cons show ?thesis by (simp add: rstrip_def)
qed

lemma minimalize_response_eq_spec:
  "minimalize_response text = extract_spec text"
proof (cases "text")
  case None then show ?thesis by (simp add: minimalize_response_def extract_spec_def)
next
  case (Some t)
  have cnt: "length (filter (\<lambda>l. strip l \<noteq> []) (group_lines (splitlines t) [] [])) =
             length (filter code_like (splitlines t))"
    by (simp add: group_lines_count)
  show ?thesis
    unfolding Some minimalize_response_def extract_spec_def minimalize_text_def Let_def
    using cnt by (simp add: hd_sort_by_len_desc rstrip_no_newline_end)
qed



subsection \<open>Running the extractor on its own output\<close>

lemma splitlines_aux_no_linebreak:
  "no_linebreak cur \<Longrightarrow> list_all no_linebreak (splitlines_aux cur s)"
  by (induction cur s rule: splitlines_aux.induct) (auto simp: no_linebreak_def)

lemma splitlines_no_linebreak: "list_all no_linebreak (splitlines s)"
  by (simp add: splitlines_def splitlines_aux_no_linebreak no_linebreak_def)

lemma join_no_linebreak:
  "list_all no_linebreak ls \<Longrightarrow> no_linebreak (join '' '' ls)"
  by (induction "'' ''" ls rule: join.induct)
     (auto simp: no_linebreak_def is_linebreak_def code_point_def)

lemma take_no_linebreak: "no_linebreak s \<Longrightarrow> no_linebreak (take n s)"
  unfolding no_linebreak_def list_all_iff by (auto dest: in_set_takeD)

lemma splitlines_aux_plain:
  "no_linebreak s \<Longrightarrow> splitlines_aux cur s = (if cur @ s = [] then [] else [cur @ s])"
  by (induction cur s rule: splitlines_aux.induct) (auto simp: no_linebreak_def)

lemma splitlines_aux_newline:
  "no_linebreak s \<Longrightarrow>
   splitlines_aux cur (s @ CHR 0x0A # r) = (cur @ s) # splitlines_aux [] r"
  by (induction s arbitrary: cur) (auto simp: no_linebreak_def is_linebreak_def code_point_def)

lemma fence_open_SomeD:
  "fence_open s = Some body \<Longrightarrow> s \<noteq> [] \<and> hd s = CHR 0x60 \<and> CHR 0x0A \<in> set s"
proof -
  assume a: "fence_open s = Some body"
  then have p: "prefix fence s" and ne: "dropWhile is_word (drop 3 s) \<noteq> []"
    and h: "hd (dropWhile is_word (drop 3 s)) = CHR 0x0A"
    by (auto simp: fence_open_def Let_def split: if_splits)
  from ne h have "CHR 0x0A \<in> set (dropWhile is_word (drop 3 s))"
    by (metis list.set_sel(1))
  then have "CHR 0x0A \<in> set s"
    by (meson in_set_dropD set_dropWhileD)
  with p show ?thesis by (auto simp: fence_def prefix_def)
qed

lemma findall_fences_none:
  "(\<And>s'. suffix s' s \<Longrightarrow> fence_open s' = None) \<Longrightarrow> findall_fences s = []"
proof (induction s)
  case Nil then show ?case by simp
next
  case (Cons c cs)
  have "fence_open (c # cs) = None" using Cons.prems by simp
  moreover have "findall_fences cs = []"
    using Cons.IH Cons.prems by (simp add: suffix_Cons)
  ultimately show ?case by simp
qed

lemma no_fence_after_marker:
  assumes "CHR 0x60 \<notin> set m" "CHR 0x0A \<notin> set c"
  shows "findall_fences (m @ CHR 0x0A # c) = []"
proof (rule findall_fences_none)
  fix s' assume s: "suffix s' (m @ CHR 0x0A # c)"
  show "fence_open s' = None"
  proof (rule ccontr)
    assume "fence_open s' \<noteq> None"
    then obtain body where "fence_open s' = Some body" by auto
    then have f: "s' \<noteq> []" "hd s' = CHR 0x60" "CHR 0x0A \<in> set s'"
      using fence_open_SomeD by auto
    from s have "suffix s' c \<or> (\<exists>xs. s' = xs @ c \<and> suffix xs (m @ [CHR 0x0A]))"
      using suffix_append[of s' "m @ [CHR 0x0A]" c] by simp
    then show False
    proof
      assume "suffix s' c"
      then have "set s' \<subseteq> set c" by (rule set_mono_suffix)
      with f assms show False by auto
    next
      assume "\<exists>xs. s' = xs @ c \<and> suffix xs (m @ [CHR 0x0A])"
      then obtain xs where xs: "s' = xs @ c" "suffix xs (m @ [CHR 0x0A])" by auto
      show False
      proof (cases xs)
        case Nil
        with xs f assms show False by auto
      next
        case (Cons x xs')
        with xs have "x \<in> set (m @ [CHR 0x0A])"
          by (metis list.set_intros(1) set_mono_suffix subsetD)
        moreover have "hd s' = x" using Cons xs by simp
        ultimately show False using f assms by auto
      qed
    qed
  qed
qed

lemma minimal_payload_no_linebreak: "no_linebreak (minimal_payload t)"
  unfolding minimal_payload_def
  by (intro take_no_linebreak join_no_linebreak splitlines_no_linebreak)

lemma code_like_marker: "code_like minimal_marker"
  unfolding code_like_def minimal_marker_def by code_simp

lemma not_code_like_Nil: "\<not> code_like []"
  by (simp add: code_like_def strip_def lstrip_def rstrip_def INLINE_Nil)

lemma first_run:
  "takes_minimal_branch t \<Longrightarrow>
   minimalize_response (Some t) = minimal_marker @ CHR 0x0A # minimal_payload t"
  by (simp add: minimalize_response_eq_spec extract_spec_def takes_minimal_branch_def
      minimal_marker_def minimal_payload_def)

lemma second_run:
  assumes c: "no_linebreak c"
  shows "minimalize_response (Some (minimal_marker @ CHR 0x0A # c)) =
     (if code_like c
      then ''// code (heuristic)'' @ [CHR 0x0A] @ strip (minimal_marker @ CHR 0x0A # c) @ [CHR 0x0A]
      else ''// response (minimal)'' @ [CHR 0x0A] @
             take 1200 (join '' '' (splitlines (strip (minimal_marker @ CHR 0x0A # c)))))"
proof -
  define out where "out = minimal_marker @ CHR 0x0A # c"
  have nl: "CHR 0x0A \<notin> set c"
    using c by (auto simp: no_linebreak_def list_all_iff is_linebreak_def code_point_def)
  have nf: "findall_fences out = []"
    unfolding out_def by (rule no_fence_after_marker) (simp_all add: minimal_marker_def nl)
  have mk: "no_linebreak minimal_marker"
    unfolding minimal_marker_def no_linebreak_def by code_simp
  have sl: "splitlines out = minimal_marker # (if c = [] then [] else [c])"
    using splitlines_aux_newline[OF mk, of "[]" c] splitlines_aux_plain[OF c, of "[]"]
    by (simp add: splitlines_def out_def)
  have ne: "out \<noteq> []" by (simp add: out_def)
  have j: "join [CHR 0x0A] [minimal_marker, c] = out" by (simp add: out_def)
  have "minimalize_response (Some out) =
     (if code_like c
      then ''// code (heuristic)'' @ [CHR 0x0A] @ strip out @ [CHR 0x0A]
      else ''// response (minimal)'' @ [CHR 0x0A] @
             take 1200 (join '' '' (splitlines (strip out))))"
  proof (cases "code_like c")
    case True
    then have cne: "c \<noteq> []" using not_code_like_Nil by auto
    have g: "group_lines (splitlines out) [] [] = [minimal_marker, c]"
      using True code_like_marker cne by (simp add: sl code_like_def)
    have n: "length (filter code_like (splitlines out)) = 2"
      using True code_like_marker cne by (simp add: sl)
    show ?thesis
      unfolding minimalize_response_eq_spec extract_spec_def
      by (simp only: option.case ne nf n g j True if_True if_False simp_thms order_refl)
  next
    case False
    have n: "length (filter code_like (splitlines out)) = 1"
      using False code_like_marker by (simp add: sl)
    show ?thesis
      unfolding minimalize_response_eq_spec extract_spec_def
      by (simp only: option.case ne nf n False if_True if_False simp_thms) simp
  qed
  then show ?thesis by (simp only: out_def)
qed

text \<open>
  C9 as stated fails: for the input \<open>x = 1\<close> (no fence, one code-like line) the first
  run gives the minimal form, and the second run finds two code-like lines, the marker
  line and \<open>x = 1\<close>, so its output starts with \<open>// code (heuristic)\<close>.
\<close>

theorem second_extract_counterexample:
  "takes_minimal_branch ''x = 1'' \<and>
   minimalize_response (Some ''x = 1'') = ''// response (minimal)'' @ [CHR 0x0A] @ ''x = 1'' \<and>
   \<not> prefix ''// response (minimal)''
       (minimalize_response (Some (minimalize_response (Some ''x = 1''))))"
  by code_simp

text \<open>
  C9, amended. For every input without fenced blocks whose extraction takes the minimal
  branch, the second run on the first run's output returns a text: the minimal form of
  that output, under \<open>// response (minimal)\<close>, when the joined and truncated line of
  the first run is not code-like, and the heuristic form, under
  \<open>// code (heuristic)\<close>, when it is.
\<close>

theorem second_extract:
  assumes "takes_minimal_branch t"
  shows "minimalize_response (Some (minimalize_response (Some t))) =
     (if code_like (minimal_payload t)
      then ''// code (heuristic)'' @ [CHR 0x0A] @
             strip (minimalize_response (Some t)) @ [CHR 0x0A]
      else ''// response (minimal)'' @ [CHR 0x0A] @
             take 1200 (join '' '' (splitlines (strip (minimalize_response (Some t))))))"
  unfolding first_run[OF assms]
  using second_run[OF minimal_payload_no_linebreak, of t]
  by (simp add: minimal_marker_def)

theorem second_extract_witness:
  "takes_minimal_branch ''hello world'' \<and>
   minimalize_response (Some (minimalize_response (Some ''hello world''))) =
     ''// response (minimal)'' @ [CHR 0x0A] @ ''// response (minimal) hello world''"
proof -
  have h: "takes_minimal_branch ''hello world''" by code_simp
  have "minimalize_response (Some (minimalize_response (Some ''hello world''))) =
     ''// response (minimal)'' @ [CHR 0x0A] @ ''// response (minimal) hello world''"
    unfolding second_extract[OF h] by code_simp
  with h show ?thesis by (rule conjI)
qed

end
